theory Spec2Isabelle
  imports Main "HOL-Library.Word"
begin

section \<open>Battleship: a shallow embedding of battleship.go\<close>

text \<open>
  The program keeps one ship on a square board and resolves shots against it.
  Go's \<^verbatim>\<open>int\<close> is modelled as a 64-bit word (its width on 64-bit platforms) read as
  two's complement (\<open>sint\<close>); the comparisons of the source are the signed comparisons
  \<open>\<le>s\<close> and \<open><s\<close>, and \<^verbatim>\<open>++\<close> and \<^verbatim>\<open>--\<close> wrap around as they do in Go.
  A \<^verbatim>\<open>rune\<close> is Go's \<^verbatim>\<open>int32\<close>.
  Methods with a pointer receiver take the value and return the updated value.
  The pointers \<^verbatim>\<open>Game.Board\<close> and \<^verbatim>\<open>Game.Ship\<close> are never nil in a game made by
  \<^verbatim>\<open>NewGame\<close> from a ship made by one of the two constructors, and a game holds the
  board and the ship themselves. Running out of memory is not modelled.
\<close>

type_synonym go_int = "64 word"
type_synonym rune = "32 word"

subsection \<open>Cell markers\<close>

text \<open>The rune literals \<^verbatim>\<open>'.'\<close>, \<^verbatim>\<open>'o'\<close>, \<^verbatim>\<open>'H'\<close> and \<^verbatim>\<open>'X'\<close> of the source.\<close>

definition rune_dot :: rune where
  "rune_dot = of_char (CHR ''.'')"

definition rune_o :: rune where
  "rune_o = of_char (CHR ''o'')"

definition rune_H :: rune where
  "rune_H = of_char (CHR ''H'')"

definition rune_X :: rune where
  "rune_X = of_char (CHR ''X'')"

subsection \<open>Ships\<close>

text \<open>
  The interface \<^verbatim>\<open>Ship\<close> has two implementations, \<^verbatim>\<open>BasicShip{Row, Col, hp}\<close>
  and \<^verbatim>\<open>ArmoredShip{Row, Col, Armor}\<close>; a value of the interface is one of the two,
  and a method call dispatches on the constructor.
\<close>

datatype ship =
    BasicShip go_int go_int go_int
  | ArmoredShip go_int go_int go_int

definition NewBasicShip :: "go_int \<Rightarrow> go_int \<Rightarrow> ship" where
  "NewBasicShip row col = BasicShip row col 1"

definition NewArmoredShip :: "go_int \<Rightarrow> go_int \<Rightarrow> go_int \<Rightarrow> ship" where
  "NewArmoredShip row col armor = ArmoredShip row col armor"

fun Position :: "ship \<Rightarrow> go_int \<times> go_int" where
  "Position (BasicShip row col hp) = (row, col)"
| "Position (ArmoredShip row col armor) = (row, col)"

fun Alive :: "ship \<Rightarrow> bool" where
  "Alive (BasicShip row col hp) = (0 <s hp)"
| "Alive (ArmoredShip row col armor) = (0 <s armor)"

text \<open>\<^verbatim>\<open>TakeHit\<close> returns its result together with the ship after the call.\<close>

fun TakeHit :: "ship \<Rightarrow> bool \<times> ship" where
  "TakeHit (BasicShip row col hp) =
     (if hp \<le>s 0 then (True, BasicShip row col hp)
      else (hp - 1 \<le>s 0, BasicShip row col (hp - 1)))"
| "TakeHit (ArmoredShip row col armor) =
     (if armor \<le>s 0 then (True, ArmoredShip row col armor)
      else (armor - 1 \<le>s 0, ArmoredShip row col (armor - 1)))"

text \<open>The remaining hitpoints: the field \<^verbatim>\<open>hp\<close>, respectively \<^verbatim>\<open>Armor\<close>.\<close>

fun hitpoints :: "ship \<Rightarrow> go_int" where
  "hitpoints (BasicShip row col hp) = hp"
| "hitpoints (ArmoredShip row col armor) = armor"

text \<open>A number of \<^verbatim>\<open>TakeHit\<close> calls in a row: the results in call order, and the ship at the end.\<close>

fun TakeHits :: "nat \<Rightarrow> ship \<Rightarrow> bool list \<times> ship" where
  "TakeHits 0 s = ([], s)"
| "TakeHits (Suc n) s =
     (let (d, s') = TakeHit s; (ds, s'') = TakeHits n s' in (d # ds, s''))"

subsection \<open>Board\<close>

record board =
  Size :: go_int
  Cells :: "rune list list"

definition InBounds :: "board \<Rightarrow> go_int \<Rightarrow> go_int \<Rightarrow> bool" where
  "InBounds b r c = (0 \<le>s r \<and> r <s Size b \<and> 0 \<le>s c \<and> c <s Size b)"

subsection \<open>Slices\<close>

text \<open>
  Indexing a slice with a Go integer panics when the index is negative or not below the
  length; \<open>None\<close> is that panic. \<^verbatim>\<open>make\<close> panics on a negative length and otherwise
  gives a slice of zero values. The rows of a grid are taken to be distinct slices,
  as \<^verbatim>\<open>NewBoard\<close> allocates them, so a write to one row leaves the others alone.
\<close>

definition slice_get :: "'a list \<Rightarrow> go_int \<Rightarrow> 'a option" where
  "slice_get xs i =
     (if 0 \<le> sint i \<and> nat (sint i) < length xs then Some (xs ! nat (sint i)) else None)"

definition slice_set :: "'a list \<Rightarrow> go_int \<Rightarrow> 'a \<Rightarrow> 'a list option" where
  "slice_set xs i v =
     (if 0 \<le> sint i \<and> nat (sint i) < length xs then Some (xs[nat (sint i) := v]) else None)"

definition make_slice :: "go_int \<Rightarrow> 'a \<Rightarrow> 'a list option" where
  "make_slice n z = (if n <s 0 then None else Some (replicate (nat (sint n)) z))"

text \<open>The read \<^verbatim>\<open>Cells[r][c]\<close> and the write \<^verbatim>\<open>Cells[r][c] = v\<close>.\<close>

definition cell_get :: "rune list list \<Rightarrow> go_int \<Rightarrow> go_int \<Rightarrow> rune option" where
  "cell_get cs r c = (case slice_get cs r of None \<Rightarrow> None | Some row \<Rightarrow> slice_get row c)"

definition cell_set :: "rune list list \<Rightarrow> go_int \<Rightarrow> go_int \<Rightarrow> rune \<Rightarrow> rune list list option" where
  "cell_set cs r c v =
     (case slice_get cs r of
        None \<Rightarrow> None
      | Some row \<Rightarrow>
          (case slice_set row c v of
             None \<Rightarrow> None
           | Some row' \<Rightarrow> slice_set cs r row'))"

subsection \<open>Errors\<close>

text \<open>
  \<^verbatim>\<open>TakeShot\<close> fails with an error made by \<^verbatim>\<open>fmt.Errorf\<close>; an index out of range
  or a negative length is a run-time panic.
\<close>

datatype error = Errorf string | Panic

definition GameAlreadyOver :: error where
  "GameAlreadyOver = Errorf ''game is allready done''"

definition OutOfBounds :: error where
  "OutOfBounds = Errorf ''out of range''"

subsection \<open>Constructing the board\<close>

text \<open>The inner loop \<^verbatim>\<open>for j := 0; j < size; j++ { b.Cells[i][j] = '.' }\<close>, from \<open>j\<close> on.\<close>

function fill_cols :: "go_int \<Rightarrow> go_int \<Rightarrow> go_int \<Rightarrow> rune list list \<Rightarrow> rune list list option" where
  "fill_cols sz i j cells =
     (if j <s sz then
        (case cell_set cells i j rune_dot of
           None \<Rightarrow> None
         | Some cells' \<Rightarrow> fill_cols sz i (j + 1) cells')
      else Some cells)"
  by pat_completeness auto
termination
proof (relation "measure (\<lambda>(sz, i, j, cells). nat (sint sz - sint j))")
  show "wf (measure (\<lambda>(sz :: go_int, i :: go_int, j :: go_int, cells :: rune list list).
              nat (sint sz - sint j)))"
    by simp
next
  fix sz i j :: go_int and cells x2 :: "rune list list"
  assume "j <s sz"
  then have lt: "sint j < sint sz"
    by (simp add: word_sless_alt)
  have "sint sz < 2 ^ 63" "- (2 ^ 63) \<le> sint j"
    using sint_lt [of sz] sint_ge [of j] by simp_all
  with lt have "sint (j + 1) = sint j + 1"
    by (simp add: sint_word_ariths signed_take_bit_int_eq_self)
  with lt show "((sz, i, j + 1, x2), sz, i, j, cells)
      \<in> measure (\<lambda>(sz, i, j, cells). nat (sint sz - sint j))"
    by simp
qed

text \<open>The outer loop \<^verbatim>\<open>for i := 0; i < size; i++ { ... }\<close>, from \<open>i\<close> on.\<close>

function fill_rows :: "go_int \<Rightarrow> go_int \<Rightarrow> rune list list \<Rightarrow> rune list list option" where
  "fill_rows sz i cells =
     (if i <s sz then
        (case make_slice sz (0 :: rune) of
           None \<Rightarrow> None
         | Some row \<Rightarrow>
             (case slice_set cells i row of
                None \<Rightarrow> None
              | Some cells1 \<Rightarrow>
                  (case fill_cols sz i 0 cells1 of
                     None \<Rightarrow> None
                   | Some cells2 \<Rightarrow> fill_rows sz (i + 1) cells2)))
      else Some cells)"
  by pat_completeness auto
termination
proof (relation "measure (\<lambda>(sz, i, cells). nat (sint sz - sint i))")
  show "wf (measure (\<lambda>(sz :: go_int, i :: go_int, cells :: rune list list).
              nat (sint sz - sint i)))"
    by simp
next
  fix sz i :: go_int and cells x2a :: "rune list list"
  assume "i <s sz"
  then have lt: "sint i < sint sz"
    by (simp add: word_sless_alt)
  have "sint sz < 2 ^ 63" "- (2 ^ 63) \<le> sint i"
    using sint_lt [of sz] sint_ge [of i] by simp_all
  with lt have "sint (i + 1) = sint i + 1"
    by (simp add: sint_word_ariths signed_take_bit_int_eq_self)
  with lt show "((sz, i + 1, x2a), sz, i, cells)
      \<in> measure (\<lambda>(sz, i, cells). nat (sint sz - sint i))"
    by simp
qed

definition NewBoard :: "go_int \<Rightarrow> error + board" where
  "NewBoard sz =
     (case make_slice sz ([] :: rune list) of
        None \<Rightarrow> Inl Panic
      | Some cells \<Rightarrow>
          (case fill_rows sz 0 cells of
             None \<Rightarrow> Inl Panic
           | Some cells' \<Rightarrow> Inr \<lparr>Size = sz, Cells = cells'\<rparr>))"

subsection \<open>Game\<close>

record game =
  Board :: board
  Ship :: ship
  Over :: bool
  Shots :: go_int

record ShotResult =
  Hit :: bool
  Destroyed :: bool

definition NewGame :: "go_int \<Rightarrow> ship \<Rightarrow> error + game" where
  "NewGame boardSize ship =
     (case NewBoard boardSize of
        Inl e \<Rightarrow> Inl e
      | Inr b \<Rightarrow> Inr \<lparr>Board = b, Ship = ship, Over = False, Shots = 0\<rparr>)"

definition hitAt :: "game \<Rightarrow> go_int \<Rightarrow> go_int \<Rightarrow> bool" where
  "hitAt g r c = (case Position (Ship g) of (sr, sc) \<Rightarrow> r = sr \<and> c = sc \<and> Alive (Ship g))"

text \<open>
  \<^verbatim>\<open>TakeShot\<close> returns its result, an error or a \<^verbatim>\<open>ShotResult\<close>, together with the game
  after the call. The two early returns happen before any assignment. A panic at a cell
  access leaves the assignments made before it.
\<close>

definition set_cell :: "game \<Rightarrow> rune list list \<Rightarrow> game" where
  "set_cell g cs = g\<lparr>Board := (Board g)\<lparr>Cells := cs\<rparr>\<rparr>"

definition TakeShot :: "game \<Rightarrow> go_int \<Rightarrow> go_int \<Rightarrow> (error + ShotResult) \<times> game" where
  "TakeShot g r c =
     (if Over g then (Inl GameAlreadyOver, g)
      else if \<not> InBounds (Board g) r c then (Inl OutOfBounds, g)
      else
        let g1 = g\<lparr>Shots := Shots g + 1\<rparr>;
            sr = \<lparr>Hit = False, Destroyed = False\<rparr>
        in case Position (Ship g1) of (shipR, shipC) \<Rightarrow>
          if r = shipR \<and> c = shipC \<and> Alive (Ship g1) then
            (case TakeHit (Ship g1) of (destroyed, ship') \<Rightarrow>
               let g2 = g1\<lparr>Ship := ship'\<rparr>;
                   sr' = sr\<lparr>Hit := True, Destroyed := destroyed\<rparr>
               in if destroyed then
                    (case cell_set (Cells (Board g2)) r c rune_X of
                       None \<Rightarrow> (Inl Panic, g2)
                     | Some cs \<Rightarrow> (Inr sr', (set_cell g2 cs)\<lparr>Over := True\<rparr>))
                  else
                    (case cell_set (Cells (Board g2)) r c rune_H of
                       None \<Rightarrow> (Inl Panic, g2)
                     | Some cs \<Rightarrow> (Inr sr', set_cell g2 cs)))
          else
            (case cell_get (Cells (Board g1)) r c of
               None \<Rightarrow> (Inl Panic, g1)
             | Some v \<Rightarrow>
                 if v = rune_dot then
                   (case cell_set (Cells (Board g1)) r c rune_o of
                      None \<Rightarrow> (Inl Panic, g1)
                    | Some cs \<Rightarrow> (Inr sr, set_cell g1 cs))
                 else (Inr sr, g1)))"

text \<open>A sequence of \<^verbatim>\<open>TakeShot\<close> calls on one game; a call that fails is followed by the next.\<close>

fun TakeShots :: "game \<Rightarrow> (go_int \<times> go_int) list \<Rightarrow> game" where
  "TakeShots g [] = g"
| "TakeShots g ((r, c) # rcs) = TakeShots (snd (TakeShot g r c)) rcs"

subsection \<open>Invariants\<close>

text \<open>
  The grid of a board is square: \<open>Size\<close> rows of \<open>Size\<close> cells each.
  \<^verbatim>\<open>NewBoard\<close> allocates it so and \<^verbatim>\<open>TakeShot\<close> never resizes it.
\<close>

definition wf_board :: "board \<Rightarrow> bool" where
  "wf_board b =
     (length (Cells b) = nat (sint (Size b)) \<and>
      list_all (\<lambda>row. length row = nat (sint (Size b))) (Cells b))"

text \<open>The cell in row \<open>i\<close> and column \<open>j\<close> of the grid is the cell at the ship's position.\<close>

definition ship_cell :: "game \<Rightarrow> nat \<Rightarrow> nat \<Rightarrow> bool" where
  "ship_cell g i j =
     (case Position (Ship g) of (shipR, shipC) \<Rightarrow> sint shipR = int i \<and> sint shipC = int j)"

text \<open>
  Every cell holds one of the four markers; \<^verbatim>\<open>'H'\<close> and \<^verbatim>\<open>'X'\<close> are only at the
  ship's position, and every other cell holds \<^verbatim>\<open>'.'\<close> or \<^verbatim>\<open>'o'\<close>.
\<close>

definition markers_ok :: "game \<Rightarrow> bool" where
  "markers_ok g =
     (\<forall>i < length (Cells (Board g)). \<forall>j < length (Cells (Board g) ! i).
        (let v = Cells (Board g) ! i ! j in
           (v = rune_dot \<or> v = rune_o \<or> v = rune_H \<or> v = rune_X) \<and>
           (v = rune_H \<or> v = rune_X \<longrightarrow> ship_cell g i j) \<and>
           (\<not> ship_cell g i j \<longrightarrow> v = rune_dot \<or> v = rune_o)))"

section \<open>Properties\<close>

subsection \<open>Signed arithmetic without overflow\<close>

lemma sint_succ: "(a :: go_int) <s b \<Longrightarrow> sint (a + 1) = sint a + 1"
proof -
  assume "a <s b"
  then have "sint a < sint b" by (simp add: word_sless_alt)
  moreover have "sint b < 2 ^ 63" using sint_lt [of b] by simp
  moreover have "- (2 ^ 63) \<le> sint a" using sint_ge [of a] by simp
  ultimately show ?thesis
    by (simp add: sint_word_ariths signed_take_bit_int_eq_self)
qed

lemma sint_pred: "0 <s (a :: go_int) \<Longrightarrow> sint (a - 1) = sint a - 1"
proof -
  assume "0 <s a"
  then have "0 < sint a" by (simp add: word_sless_alt)
  moreover have "sint a < 2 ^ 63" using sint_lt [of a] by simp
  ultimately show ?thesis
    by (simp add: sint_word_ariths signed_take_bit_int_eq_self)
qed

subsection \<open>Ships\<close>

lemma Alive_iff: "Alive s = (0 < sint (hitpoints s))"
  by (cases s) (simp_all add: word_sless_alt)

lemma TakeHit_dead: "hitpoints s \<le>s 0 \<Longrightarrow> TakeHit s = (True, s)"
  by (cases s) simp_all

lemma TakeHit_alive:
  assumes "0 <s hitpoints s"
  shows "fst (TakeHit s) = (sint (hitpoints s) = 1)"
    and "hitpoints (snd (TakeHit s)) = hitpoints s - 1"
  using assms by (cases s; auto simp: word_sle_eq word_sless_alt sint_pred)+

lemma TakeHits_dead: "hitpoints s \<le>s 0 \<Longrightarrow> TakeHits n s = (replicate n True, s)"
  by (induction n) (simp_all add: TakeHit_dead)

lemma TakeHits_armored_alive:
  "int k < sint a \<Longrightarrow>
     TakeHits k (ArmoredShip r c a) = (replicate k False, ArmoredShip r c (a - of_nat k)) \<and>
     sint (a - of_nat k) = sint a - int k"
proof (induction k arbitrary: a)
  case 0
  then show ?case by simp
next
  case (Suc k)
  then have pos: "0 <s a" by (simp add: word_sless_alt)
  have pred: "sint (a - 1) = sint a - 1" using pos by (rule sint_pred)
  have hit: "TakeHit (ArmoredShip r c a) = (False, ArmoredShip r c (a - 1))"
    using Suc.prems by (simp add: word_sle_eq pred)
  have "int k < sint (a - 1)" using Suc.prems pred by simp
  from Suc.IH [OF this] hit pred show ?case
    by (simp add: algebra_simps)
qed

lemma TakeHits_armored_last:
  "sint a = int (Suc k) \<Longrightarrow>
     TakeHits (Suc k) (ArmoredShip r c a) = (replicate k False @ [True], ArmoredShip r c 0)"
proof (induction k arbitrary: a)
  case 0
  have "a = of_int (sint a)" by simp
  with 0 have "a = 1" by simp
  then show ?case by (simp add: word_sle_eq)
next
  case (Suc k)
  then have pos: "0 <s a" by (simp add: word_sless_alt)
  have pred: "sint (a - 1) = sint a - 1" using pos by (rule sint_pred)
  have hit: "TakeHit (ArmoredShip r c a) = (False, ArmoredShip r c (a - 1))"
    using Suc.prems by (simp add: word_sle_eq pred)
  have "sint (a - 1) = int (Suc k)" using Suc.prems pred by simp
  from Suc.IH [OF this] hit show ?case
    by (simp del: TakeHit.simps)
qed

subsection \<open>The loops of NewBoard\<close>

lemma cell_set_in_range:
  assumes "0 \<le> sint r" "nat (sint r) < length cs" "0 \<le> sint c" "nat (sint c) < length (cs ! nat (sint r))"
  shows "cell_set cs r c v = Some (cs[nat (sint r) := (cs ! nat (sint r))[nat (sint c) := v]])"
  using assms by (simp add: cell_set_def slice_get_def slice_set_def)

lemma cell_get_in_range:
  assumes "0 \<le> sint r" "nat (sint r) < length cs" "0 \<le> sint c" "nat (sint c) < length (cs ! nat (sint r))"
  shows "cell_get cs r c = Some (cs ! nat (sint r) ! nat (sint c))"
  using assms by (simp add: cell_get_def slice_get_def)

lemma fill_cols_eq:
  assumes "0 \<le> sint i" "nat (sint i) < length cells"
    and "length (cells ! nat (sint i)) = nat (sint sz)"
    and "0 \<le> sint j" "sint j \<le> sint sz"
  shows "fill_cols sz i j cells =
    Some (cells[nat (sint i) :=
            take (nat (sint j)) (cells ! nat (sint i)) @ replicate (nat (sint sz) - nat (sint j)) rune_dot])"
  using assms
proof (induction sz i j cells rule: fill_cols.induct)
  case (1 sz i j cells)
  let ?I = "nat (sint i)" and ?J = "nat (sint j)"
  let ?row = "cells ! ?I"
  show ?case
  proof (cases "j <s sz")
    case False
    with "1.prems" have "sint j = sint sz" by (simp add: word_sless_alt)
    with "1.prems" False show ?thesis
      by (subst fill_cols.simps) (simp add: list_update_same_conv)
  next
    case True
    then have lt: "sint j < sint sz" by (simp add: word_sless_alt)
    have sj: "sint (j + 1) = sint j + 1" using True by (rule sint_succ)
    have Jlt: "?J < length ?row" using lt "1.prems" by simp
    let ?cells' = "cells[?I := ?row[?J := rune_dot]]"
    have cs: "cell_set cells i j rune_dot = Some ?cells'"
      using "1.prems" Jlt by (simp add: cell_set_in_range)
    have nJ: "nat (sint j + 1) = Suc ?J" using "1.prems" by simp
    have IH: "fill_cols sz i (j + 1) ?cells' =
      Some (?cells'[?I := take (nat (sint (j + 1))) (?cells' ! ?I) @
               replicate (nat (sint sz) - nat (sint (j + 1))) rune_dot])"
      using "1.prems" lt sj by (intro "1.IH" [OF True cs]) simp_all
    have tk: "take (Suc ?J) (?row[?J := rune_dot]) = take ?J ?row @ [rune_dot]"
      using Jlt by (simp add: take_Suc_conv_app_nth)
    have rp: "replicate (nat (sint sz) - ?J) rune_dot =
              rune_dot # replicate (nat (sint sz) - Suc ?J) rune_dot"
      using Jlt "1.prems" by (simp add: Suc_diff_Suc flip: replicate_Suc)
    show ?thesis
      using True cs IH "1.prems"(2)
      by (subst fill_cols.simps) (simp add: sj nJ tk rp)
  qed
qed

lemma fill_rows_eq:
  assumes "length cells = nat (sint sz)" "0 \<le> sint i" "sint i \<le> sint sz"
  shows "fill_rows sz i cells =
    Some (take (nat (sint i)) cells @
          replicate (nat (sint sz) - nat (sint i)) (replicate (nat (sint sz)) rune_dot))"
  using assms
proof (induction sz i cells rule: fill_rows.induct)
  case (1 sz i cells)
  let ?I = "nat (sint i)" and ?n = "nat (sint sz)"
  show ?case
  proof (cases "i <s sz")
    case False
    with "1.prems" have "sint i = sint sz" by (simp add: word_sless_alt)
    with "1.prems" False show ?thesis
      by (subst fill_rows.simps) simp
  next
    case True
    then have lt: "sint i < sint sz" by (simp add: word_sless_alt)
    have si: "sint (i + 1) = sint i + 1" using True by (rule sint_succ)
    have Ilt: "?I < length cells" using lt "1.prems" by simp
    have nI: "nat (sint i + 1) = Suc ?I" using "1.prems" by simp
    have mk: "make_slice sz (0 :: rune) = Some (replicate ?n 0)"
      using lt "1.prems" by (simp add: make_slice_def word_sless_alt)
    let ?cells1 = "cells[?I := replicate ?n 0]"
    have st: "slice_set cells i (replicate ?n (0 :: rune)) = Some ?cells1"
      using Ilt "1.prems" by (simp add: slice_set_def)
    let ?cells2 = "cells[?I := replicate ?n rune_dot]"
    have fc: "fill_cols sz i 0 ?cells1 = Some ?cells2"
      using Ilt "1.prems" lt by (subst fill_cols_eq) simp_all
    have IH: "fill_rows sz (i + 1) ?cells2 =
      Some (take (nat (sint (i + 1))) ?cells2 @
          replicate (?n - nat (sint (i + 1))) (replicate ?n rune_dot))"
      using "1.prems" lt si by (intro "1.IH" [OF True mk st fc]) simp_all
    have tk: "take (Suc ?I) ?cells2 = take ?I cells @ [replicate ?n rune_dot]"
      using Ilt by (simp add: take_Suc_conv_app_nth)
    have rp: "replicate (?n - ?I) (replicate ?n rune_dot) =
              replicate ?n rune_dot # replicate (?n - Suc ?I) (replicate ?n rune_dot)"
      using Ilt "1.prems" by (simp add: Suc_diff_Suc flip: replicate_Suc)
    show ?thesis
      using True mk st fc IH
      by (subst fill_rows.simps) (simp add: si nI tk rp)
  qed
qed

lemma NewBoard_eq:
  "NewBoard sz =
     (if sz <s 0 then Inl Panic
      else Inr \<lparr>Size = sz, Cells = replicate (nat (sint sz)) (replicate (nat (sint sz)) rune_dot)\<rparr>)"
proof (cases "sz <s 0")
  case True
  then show ?thesis by (simp add: NewBoard_def make_slice_def)
next
  case False
  then have "0 \<le> sint sz" by (simp add: word_sless_alt)
  then have "fill_rows sz 0 (replicate (nat (sint sz)) []) =
     Some (replicate (nat (sint sz)) (replicate (nat (sint sz)) rune_dot))"
    by (subst fill_rows_eq) simp_all
  with False show ?thesis by (simp add: NewBoard_def make_slice_def)
qed

subsection \<open>Shots on a square board\<close>

lemma InBounds_wf:
  assumes "InBounds b r c" "wf_board b"
  shows "0 \<le> sint r" "nat (sint r) < length (Cells b)" "0 \<le> sint c"
    "nat (sint c) < length (Cells b ! nat (sint r))"
proof -
  from assms(1) have rc: "0 \<le> sint r" "sint r < sint (Size b)" "0 \<le> sint c" "sint c < sint (Size b)"
    by (simp_all add: InBounds_def word_sle_eq word_sless_alt)
  from assms(2) have len: "length (Cells b) = nat (sint (Size b))"
    and rows: "\<forall>row \<in> set (Cells b). length row = nat (sint (Size b))"
    by (simp_all add: wf_board_def list_all_iff)
  show "0 \<le> sint r" "0 \<le> sint c" using rc by simp_all
  show r: "nat (sint r) < length (Cells b)" using rc len by simp
  then have "length (Cells b ! nat (sint r)) = nat (sint (Size b))"
    using rows by simp
  then show "nat (sint c) < length (Cells b ! nat (sint r))" using rc by simp
qed

lemma TakeShot_accepted:
  assumes "\<not> Over g" "InBounds (Board g) r c" "wf_board (Board g)"
  shows "TakeShot g r c =
    (let cs = Cells (Board g); i = nat (sint r); j = nat (sint c) in
     if Position (Ship g) = (r, c) \<and> Alive (Ship g) then
       (Inr \<lparr>Hit = True, Destroyed = fst (TakeHit (Ship g))\<rparr>,
        g\<lparr>Shots := Shots g + 1, Ship := snd (TakeHit (Ship g)),
          Board := (Board g)\<lparr>Cells :=
             cs[i := (cs ! i)[j := if fst (TakeHit (Ship g)) then rune_X else rune_H]]\<rparr>,
          Over := fst (TakeHit (Ship g))\<rparr>)
     else
       (Inr \<lparr>Hit = False, Destroyed = False\<rparr>,
        g\<lparr>Shots := Shots g + 1,
          Board := (Board g)\<lparr>Cells :=
             if cs ! i ! j = rune_dot then cs[i := (cs ! i)[j := rune_o]] else cs\<rparr>\<rparr>))"
proof -
  note ib = InBounds_wf [OF assms(2,3)]
  have get: "cell_get (Cells (Board g)) r c = Some (Cells (Board g) ! nat (sint r) ! nat (sint c))"
    using ib by (rule cell_get_in_range)
  have set: "\<And>v. cell_set (Cells (Board g)) r c v =
      Some ((Cells (Board g))[nat (sint r) := (Cells (Board g) ! nat (sint r))[nat (sint c) := v]])"
    using ib by (rule cell_set_in_range)
  show ?thesis
  proof (cases "Position (Ship g) = (r, c) \<and> Alive (Ship g)")
    case True
    obtain d s' where th: "TakeHit (Ship g) = (d, s')" by (cases "TakeHit (Ship g)")
    from True assms(1,2) th show ?thesis
      by (cases d) (auto simp: TakeShot_def Let_def get set set_cell_def)
  next
    case False
    obtain shipR shipC where pos: "Position (Ship g) = (shipR, shipC)"
      by (cases "Position (Ship g)")
    from False assms(1,2) pos show ?thesis
      by (auto simp: TakeShot_def Let_def get set set_cell_def)
  qed
qed

subsection \<open>Invariants of the game\<close>

lemma rune_distinct:
  "rune_dot \<noteq> rune_o" "rune_dot \<noteq> rune_H" "rune_dot \<noteq> rune_X"
  "rune_o \<noteq> rune_H" "rune_o \<noteq> rune_X" "rune_H \<noteq> rune_X"
  by (simp_all add: rune_dot_def rune_o_def rune_H_def rune_X_def)

lemma TakeHit_Position: "Position (snd (TakeHit s)) = Position s"
  by (cases s) simp_all

lemma TakeShot_rejected:
  "Over g \<or> \<not> InBounds (Board g) r c \<Longrightarrow> snd (TakeShot g r c) = g"
  by (auto simp: TakeShot_def)

lemma wf_board_update:
  assumes "wf_board b"
  shows "wf_board (b\<lparr>Cells := (Cells b)[i := (Cells b ! i)[j := v]]\<rparr>)"
proof -
  from assms have len: "length (Cells b) = nat (sint (Size b))"
    and rows: "\<forall>row \<in> set (Cells b). length row = nat (sint (Size b))"
    by (simp_all add: wf_board_def list_all_iff)
  have "\<forall>row \<in> set ((Cells b)[i := (Cells b ! i)[j := v]]). length row = nat (sint (Size b))"
  proof
    fix row assume "row \<in> set ((Cells b)[i := (Cells b ! i)[j := v]])"
    then have "row = (Cells b ! i)[j := v] \<and> i < length (Cells b) \<or> row \<in> set (Cells b)"
      by (cases "i < length (Cells b)")
         (auto dest: set_update_subset_insert [THEN subsetD] simp: list_update_beyond)
    with rows show "length row = nat (sint (Size b))" by auto
  qed
  with len show ?thesis by (simp add: wf_board_def list_all_iff)
qed

lemma TakeShot_wf:
  assumes "wf_board (Board g)"
  shows "wf_board (Board (snd (TakeShot g r c)))"
proof (cases "Over g \<or> \<not> InBounds (Board g) r c")
  case True
  with assms show ?thesis by (simp add: TakeShot_rejected)
next
  case False
  then have "\<not> Over g" "InBounds (Board g) r c" by simp_all
  from TakeShot_accepted [OF this assms] wf_board_update [OF assms] assms
  show ?thesis by (simp add: Let_def)
qed

lemma TakeShot_Position:
  assumes "wf_board (Board g)"
  shows "Position (Ship (snd (TakeShot g r c))) = Position (Ship g)"
proof (cases "Over g \<or> \<not> InBounds (Board g) r c")
  case True
  then show ?thesis by (simp add: TakeShot_rejected)
next
  case False
  then have "\<not> Over g" "InBounds (Board g) r c" by simp_all
  from TakeShot_accepted [OF this assms]
  show ?thesis by (simp add: Let_def TakeHit_Position)
qed

lemma markers_ok_update:
  assumes ok: "markers_ok g"
    and pos: "Position (Ship g') = Position (Ship g)"
    and cells: "Cells (Board g') = (Cells (Board g))[i := (Cells (Board g) ! i)[j := v]]"
    and v: "v = rune_o \<or> ((v = rune_H \<or> v = rune_X) \<and> ship_cell g i j)"
  shows "markers_ok g'"
  unfolding markers_ok_def Let_def
proof (intro allI impI)
  fix i' j'
  assume i': "i' < length (Cells (Board g'))" and j': "j' < length (Cells (Board g') ! i')"
  let ?cs = "Cells (Board g)"
  have sc: "ship_cell g' i' j' = ship_cell g i' j'" using pos by (simp add: ship_cell_def)
  from i' have i'lt: "i' < length ?cs" by (simp add: cells)
  show "(Cells (Board g') ! i' ! j' = rune_dot \<or> Cells (Board g') ! i' ! j' = rune_o \<or>
         Cells (Board g') ! i' ! j' = rune_H \<or> Cells (Board g') ! i' ! j' = rune_X) \<and>
        (Cells (Board g') ! i' ! j' = rune_H \<or> Cells (Board g') ! i' ! j' = rune_X \<longrightarrow>
           ship_cell g' i' j') \<and>
        (\<not> ship_cell g' i' j' \<longrightarrow>
           Cells (Board g') ! i' ! j' = rune_dot \<or> Cells (Board g') ! i' ! j' = rune_o)"
  proof (cases "i' = i \<and> j' = j")
    case True
    with i'lt j' have "Cells (Board g') ! i' ! j' = v" by (simp add: cells)
    with v True sc show ?thesis using rune_distinct by auto
  next
    case False
    have same: "Cells (Board g') ! i' ! j' = ?cs ! i' ! j'"
    proof (cases "i' = i")
      case True
      with False i'lt show ?thesis by (simp add: cells)
    next
      case False
      then show ?thesis by (simp add: cells)
    qed
    have "length (Cells (Board g') ! i') = length (?cs ! i')"
      using i'lt by (cases "i' = i") (simp_all add: cells)
    with j' have "j' < length (?cs ! i')" by simp
    with ok i'lt show ?thesis
      unfolding markers_ok_def Let_def same sc by blast
  qed
qed

lemma TakeShot_markers:
  assumes wf: "wf_board (Board g)" and ok: "markers_ok g"
  shows "markers_ok (snd (TakeShot g r c))"
proof (cases "Over g \<or> \<not> InBounds (Board g) r c")
  case True
  with ok show ?thesis by (simp add: TakeShot_rejected)
next
  case False
  then have acc: "\<not> Over g" "InBounds (Board g) r c" by simp_all
  note ib = InBounds_wf [OF acc(2) wf]
  note eq = TakeShot_accepted [OF acc wf]
  let ?g' = "snd (TakeShot g r c)"
  show ?thesis
  proof (cases "Position (Ship g) = (r, c) \<and> Alive (Ship g)")
    case True
    then have sc: "ship_cell g (nat (sint r)) (nat (sint c))"
      using ib by (simp add: ship_cell_def)
    show ?thesis
      by (rule markers_ok_update [OF ok, where i = "nat (sint r)" and j = "nat (sint c)"
            and v = "if fst (TakeHit (Ship g)) then rune_X else rune_H"])
         (use True sc in \<open>simp_all add: eq Let_def TakeHit_Position\<close>)
  next
    case False
    note miss = eq [unfolded Let_def if_not_P [OF False]]
    show ?thesis
    proof (cases "Cells (Board g) ! nat (sint r) ! nat (sint c) = rune_dot")
      case True
      show ?thesis
        by (rule markers_ok_update [OF ok, where i = "nat (sint r)" and j = "nat (sint c)"
              and v = rune_o])
           (simp_all add: miss True)
    next
      case nd: False
      have "markers_ok ?g' = markers_ok g"
        by (simp add: miss nd markers_ok_def ship_cell_def)
      with ok show ?thesis by simp
    qed
  qed
qed

lemma NewGame_Inr:
  assumes "NewGame sz ship = Inr g"
  shows "g = \<lparr>Board = \<lparr>Size = sz,
                 Cells = replicate (nat (sint sz)) (replicate (nat (sint sz)) rune_dot)\<rparr>,
              Ship = ship, Over = False, Shots = 0\<rparr>"
  using assms by (auto simp: NewGame_def NewBoard_eq split: if_splits)

lemma NewGame_inv:
  assumes "NewGame sz ship = Inr g"
  shows "wf_board (Board g)" "markers_ok g"
proof -
  note g = NewGame_Inr [OF assms]
  show "wf_board (Board g)"
    by (subst g) (simp add: wf_board_def list_all_iff)
  have "Cells (Board g) ! i ! j = rune_dot"
    if "i < length (Cells (Board g))" "j < length (Cells (Board g) ! i)" for i j
    using that by (subst (asm) (1 2) g, subst g) simp
  then show "markers_ok g"
    using rune_distinct by (simp add: markers_ok_def)
qed

lemma TakeShots_inv:
  assumes "wf_board (Board g)" "markers_ok g"
  shows "wf_board (Board (TakeShots g rcs)) \<and> markers_ok (TakeShots g rcs) \<and>
         Position (Ship (TakeShots g rcs)) = Position (Ship g)"
  using assms
proof (induction rcs arbitrary: g)
  case Nil
  then show ?case by simp
next
  case (Cons rc rcs)
  obtain r c where rc: "rc = (r, c)" by (cases rc)
  let ?g' = "snd (TakeShot g r c)"
  have "wf_board (Board ?g')" "markers_ok ?g'" "Position (Ship ?g') = Position (Ship g)"
    using Cons.prems by (simp_all add: TakeShot_wf TakeShot_markers TakeShot_Position)
  with Cons.IH [of ?g'] show ?case by (simp add: rc)
qed

lemma cell_get_update:
  assumes "0 \<le> sint r" "nat (sint r) < length cs" "0 \<le> sint c"
    "nat (sint c) < length (cs ! nat (sint r))"
  shows "cell_get (cs[nat (sint r) := (cs ! nat (sint r))[nat (sint c) := v]]) r c = Some v"
  using assms by (simp add: cell_get_def slice_get_def)

lemma hitAt_iff: "hitAt g r c = (Position (Ship g) = (r, c) \<and> Alive (Ship g))"
  by (cases "Position (Ship g)") (auto simp: hitAt_def)

lemma TakeShot_Shots:
  assumes "\<not> Over g" "InBounds (Board g) r c"
  shows "Shots (snd (TakeShot g r c)) = Shots g + 1"
  using assms
  by (simp add: TakeShot_def Let_def set_cell_def split: prod.splits option.splits)

text \<open>
  Read as an integer, the counter grows by one unless it holds the largest \<^verbatim>\<open>int\<close>,
  where \<^verbatim>\<open>g.Shots++\<close> wraps around.
\<close>

lemma TakeShot_Shots_int:
  assumes "\<not> Over g" "InBounds (Board g) r c" "sint (Shots g) < 2 ^ 63 - 1"
  shows "sint (Shots (snd (TakeShot g r c))) = sint (Shots g) + 1"
proof -
  have "- (2 ^ 63) \<le> sint (Shots g)" using sint_ge [of "Shots g"] by simp
  with assms(3) have "sint (Shots g + 1) = sint (Shots g) + 1"
    by (simp add: sint_word_ariths signed_take_bit_int_eq_self)
  then show ?thesis by (simp add: TakeShot_Shots [OF assms(1,2)])
qed

subsection \<open>The claims\<close>

text \<open>
  C1. On a game that is not over, with a square board, a shot at in-bounds coordinates that
  are the position of a ship that is alive is a hit: the ship after the call is the ship
  after \<^verbatim>\<open>TakeHit\<close>. If \<^verbatim>\<open>TakeHit\<close> returned true, the result is
  \<^verbatim>\<open>{Hit: true, Destroyed: true}\<close>, the cell holds \<^verbatim>\<open>'X'\<close> and the game is over;
  otherwise the result is \<^verbatim>\<open>{Hit: true, Destroyed: false}\<close>, the cell holds \<^verbatim>\<open>'H'\<close>
  and the game is still not over.
\<close>

theorem TakeShot_hit:
  assumes "\<not> Over g" and "InBounds (Board g) r c" and "wf_board (Board g)"
    and "Position (Ship g) = (r, c)" and "Alive (Ship g)"
  shows "case TakeShot g r c of (res, g') \<Rightarrow>
           Ship g' = snd (TakeHit (Ship g)) \<and>
           (if fst (TakeHit (Ship g))
            then res = Inr \<lparr>Hit = True, Destroyed = True\<rparr> \<and>
                 cell_get (Cells (Board g')) r c = Some rune_X \<and> Over g'
            else res = Inr \<lparr>Hit = True, Destroyed = False\<rparr> \<and>
                 cell_get (Cells (Board g')) r c = Some rune_H \<and> \<not> Over g')"
proof -
  note ib = InBounds_wf [OF assms(2,3)]
  have hit: "Position (Ship g) = (r, c) \<and> Alive (Ship g)" using assms(4,5) by simp
  note eq = TakeShot_accepted [OF assms(1-3), unfolded Let_def if_P [OF hit]]
  show ?thesis
    by (simp add: eq cell_get_update [OF ib])
qed

theorem TakeShot_hit_witness:
  "\<not> Over \<lparr>Board = \<lparr>Size = 3, Cells = replicate 3 (replicate 3 rune_dot)\<rparr>,
            Ship = NewArmoredShip 1 1 2, Over = False, Shots = 0\<rparr> \<and>
   InBounds \<lparr>Size = 3, Cells = replicate 3 (replicate 3 rune_dot)\<rparr> 1 1 \<and>
   wf_board \<lparr>Size = 3, Cells = replicate 3 (replicate 3 rune_dot)\<rparr> \<and>
   Position (NewArmoredShip 1 1 2) = (1, 1) \<and>
   Alive (NewArmoredShip 1 1 2) \<and>
   TakeShot \<lparr>Board = \<lparr>Size = 3, Cells = replicate 3 (replicate 3 rune_dot)\<rparr>,
            Ship = NewArmoredShip 1 1 2, Over = False, Shots = 0\<rparr> 1 1 =
     (Inr \<lparr>Hit = True, Destroyed = False\<rparr>,
      \<lparr>Board = \<lparr>Size = 3, Cells = [[rune_dot, rune_dot, rune_dot],
                                    [rune_dot, rune_H, rune_dot],
                                    [rune_dot, rune_dot, rune_dot]]\<rparr>,
       Ship = ArmoredShip 1 1 1, Over = False, Shots = 1\<rparr>)"
  using TakeShot_hit [of "\<lparr>Board = \<lparr>Size = 3, Cells = replicate 3 (replicate 3 rune_dot)\<rparr>,
            Ship = NewArmoredShip 1 1 2, Over = False, Shots = 0\<rparr>" 1 1]
  by (simp add: TakeShot_def InBounds_def wf_board_def NewArmoredShip_def set_cell_def
        cell_get_def cell_set_def slice_get_def slice_set_def
        word_sle_eq word_sless_alt numeral_3_eq_3 rune_distinct)

text \<open>
  C2. On a game that is not over, with a square board, a shot at in-bounds coordinates that
  is not a hit (the coordinates differ from the ship's position, or the ship is not alive)
  returns \<^verbatim>\<open>{Hit: false, Destroyed: false}\<close>; the cell holds \<^verbatim>\<open>'o'\<close> afterwards if it
  held \<^verbatim>\<open>'.'\<close>, and what it held before otherwise.
\<close>

theorem TakeShot_miss:
  assumes "\<not> Over g" and "InBounds (Board g) r c" and "wf_board (Board g)"
    and "Position (Ship g) \<noteq> (r, c) \<or> \<not> Alive (Ship g)"
  shows "\<exists>v. cell_get (Cells (Board g)) r c = Some v \<and>
           (case TakeShot g r c of (res, g') \<Rightarrow>
              res = Inr \<lparr>Hit = False, Destroyed = False\<rparr> \<and>
              cell_get (Cells (Board g')) r c = Some (if v = rune_dot then rune_o else v))"
proof -
  note ib = InBounds_wf [OF assms(2,3)]
  have miss: "\<not> (Position (Ship g) = (r, c) \<and> Alive (Ship g))" using assms(4) by simp
  note eq = TakeShot_accepted [OF assms(1-3), unfolded Let_def if_not_P [OF miss]]
  have get: "cell_get (Cells (Board g)) r c = Some (Cells (Board g) ! nat (sint r) ! nat (sint c))"
    using ib by (rule cell_get_in_range)
  show ?thesis
    by (simp add: eq get cell_get_update [OF ib])
qed

theorem TakeShot_miss_witness:
  "\<not> Over \<lparr>Board = \<lparr>Size = 2, Cells = [[rune_dot, rune_dot], [rune_dot, rune_o]]\<rparr>,
            Ship = NewBasicShip 0 0, Over = False, Shots = 1\<rparr> \<and>
   InBounds \<lparr>Size = 2, Cells = [[rune_dot, rune_dot], [rune_dot, rune_o]]\<rparr> 1 1 \<and>
   wf_board \<lparr>Size = 2, Cells = [[rune_dot, rune_dot], [rune_dot, rune_o]]\<rparr> \<and>
   Position (NewBasicShip 0 0) \<noteq> (1, 1) \<and>
   TakeShot \<lparr>Board = \<lparr>Size = 2, Cells = [[rune_dot, rune_dot], [rune_dot, rune_o]]\<rparr>,
            Ship = NewBasicShip 0 0, Over = False, Shots = 1\<rparr> 1 1 =
     (Inr \<lparr>Hit = False, Destroyed = False\<rparr>,
      \<lparr>Board = \<lparr>Size = 2, Cells = [[rune_dot, rune_dot], [rune_dot, rune_o]]\<rparr>,
       Ship = NewBasicShip 0 0, Over = False, Shots = 2\<rparr>)"
  using TakeShot_miss [of "\<lparr>Board = \<lparr>Size = 2, Cells = [[rune_dot, rune_dot], [rune_dot, rune_o]]\<rparr>,
            Ship = NewBasicShip 0 0, Over = False, Shots = 1\<rparr>" 1 1]
  by (simp add: TakeShot_def InBounds_def wf_board_def NewBasicShip_def set_cell_def
        cell_get_def cell_set_def slice_get_def slice_set_def
        word_sle_eq word_sless_alt rune_distinct [symmetric] Let_def)

text \<open>
  C3. On a game that is over, \<^verbatim>\<open>TakeShot\<close> fails with the error
  \<^verbatim>\<open>"game is allready done"\<close> at any coordinates, and the game after the call is the
  game before it: shot counter, board and ship are unchanged.
\<close>

theorem TakeShot_over:
  "Over g \<Longrightarrow> TakeShot g r c = (Inl GameAlreadyOver, g)"
  by (simp add: TakeShot_def)

theorem TakeShot_over_witness:
  "Over \<lparr>Board = \<lparr>Size = 1, Cells = [[rune_X]]\<rparr>, Ship = BasicShip 0 0 0,
         Over = True, Shots = 1\<rparr> \<and>
   TakeShot \<lparr>Board = \<lparr>Size = 1, Cells = [[rune_X]]\<rparr>, Ship = BasicShip 0 0 0,
         Over = True, Shots = 1\<rparr> 0 0 =
     (Inl (Errorf ''game is allready done''),
      \<lparr>Board = \<lparr>Size = 1, Cells = [[rune_X]]\<rparr>, Ship = BasicShip 0 0 0,
         Over = True, Shots = 1\<rparr>)"
  using TakeShot_over [of "\<lparr>Board = \<lparr>Size = 1, Cells = [[rune_X]]\<rparr>, Ship = BasicShip 0 0 0,
         Over = True, Shots = 1\<rparr>" 0 0]
  by (simp add: GameAlreadyOver_def)

text \<open>
  C4. On a game that is not over, \<^verbatim>\<open>TakeShot\<close> at coordinates that are not in bounds
  fails with the error \<^verbatim>\<open>"out of range"\<close>, and the game after the call is the game
  before it: shot counter, board and ship are unchanged.
\<close>

theorem TakeShot_out_of_bounds:
  "\<not> Over g \<Longrightarrow> \<not> InBounds (Board g) r c \<Longrightarrow> TakeShot g r c = (Inl OutOfBounds, g)"
  by (simp add: TakeShot_def)

theorem TakeShot_out_of_bounds_witness:
  "\<not> Over \<lparr>Board = \<lparr>Size = 5, Cells = replicate 5 (replicate 5 rune_dot)\<rparr>,
            Ship = NewBasicShip 2 3, Over = False, Shots = 0\<rparr> \<and>
   \<not> InBounds \<lparr>Size = 5, Cells = replicate 5 (replicate 5 rune_dot)\<rparr> 5 5 \<and>
   TakeShot \<lparr>Board = \<lparr>Size = 5, Cells = replicate 5 (replicate 5 rune_dot)\<rparr>,
            Ship = NewBasicShip 2 3, Over = False, Shots = 0\<rparr> 5 5 =
     (Inl (Errorf ''out of range''),
      \<lparr>Board = \<lparr>Size = 5, Cells = replicate 5 (replicate 5 rune_dot)\<rparr>,
            Ship = NewBasicShip 2 3, Over = False, Shots = 0\<rparr>)"
  using TakeShot_out_of_bounds [of "\<lparr>Board = \<lparr>Size = 5, Cells = replicate 5 (replicate 5 rune_dot)\<rparr>,
            Ship = NewBasicShip 2 3, Over = False, Shots = 0\<rparr>" 5 5]
  by (simp add: OutOfBounds_def InBounds_def word_sle_eq word_sless_alt)

text \<open>
  C5. Every accepted call of \<^verbatim>\<open>TakeShot\<close> (game not over, coordinates in bounds) leaves
  the shot counter at its value before the call plus one, whatever the outcome.
  The addition is that of Go's \<^verbatim>\<open>int\<close>.
\<close>

theorem TakeShot_counts:
  "\<not> Over g \<Longrightarrow> InBounds (Board g) r c \<Longrightarrow> Shots (snd (TakeShot g r c)) = Shots g + 1"
  by (rule TakeShot_Shots)

theorem TakeShot_counts_witness:
  "\<not> Over \<lparr>Board = \<lparr>Size = 2, Cells = [[rune_dot, rune_dot], [rune_dot, rune_o]]\<rparr>,
            Ship = NewBasicShip 0 0, Over = False, Shots = 1\<rparr> \<and>
   InBounds \<lparr>Size = 2, Cells = [[rune_dot, rune_dot], [rune_dot, rune_o]]\<rparr> 0 0 \<and>
   Shots (snd (TakeShot \<lparr>Board = \<lparr>Size = 2, Cells = [[rune_dot, rune_dot], [rune_dot, rune_o]]\<rparr>,
            Ship = NewBasicShip 0 0, Over = False, Shots = 1\<rparr> 0 0)) = 2"
  using TakeShot_counts [of "\<lparr>Board = \<lparr>Size = 2, Cells = [[rune_dot, rune_dot], [rune_dot, rune_o]]\<rparr>,
            Ship = NewBasicShip 0 0, Over = False, Shots = 1\<rparr>" 0 0]
  by (simp add: InBounds_def word_sle_eq word_sless_alt)

text \<open>
  C6. A fresh \<^verbatim>\<open>BasicShip\<close> is alive, its first \<^verbatim>\<open>TakeHit\<close> returns true and leaves
  it dead with no hitpoints. An \<^verbatim>\<open>ArmoredShip\<close> made with armor \<open>A \<ge> 1\<close> needs exactly
  \<open>A\<close> calls: the first \<open>A - 1\<close> return false and the \<open>A\<close>-th returns true; after
  \<open>k \<le> A\<close> calls \<open>A - k\<close> hitpoints remain and the ship is alive exactly when
  \<open>k < A\<close>. A ship of either kind is alive exactly when its hitpoints are positive.
\<close>

theorem hits_to_destroy:
  "Alive (NewBasicShip r c) \<and>
   TakeHit (NewBasicShip r c) = (True, BasicShip r c 0) \<and>
   \<not> Alive (BasicShip r c 0) \<and>
   Alive s = (0 < sint (hitpoints s)) \<and>
   (1 \<le>s A \<longrightarrow>
      fst (TakeHits (nat (sint A)) (NewArmoredShip r c A)) =
        replicate (nat (sint A) - 1) False @ [True] \<and>
      (\<forall>k \<le> nat (sint A).
         sint (hitpoints (snd (TakeHits k (NewArmoredShip r c A)))) = sint A - int k \<and>
         Alive (snd (TakeHits k (NewArmoredShip r c A))) = (k < nat (sint A))))"
proof (intro conjI impI allI)
  show "Alive (NewBasicShip r c)"
    by (simp add: NewBasicShip_def word_sless_alt)
  show "TakeHit (NewBasicShip r c) = (True, BasicShip r c 0)"
    by (simp add: NewBasicShip_def word_sle_eq)
  show "\<not> Alive (BasicShip r c 0)"
    by simp
  show "Alive s = (0 < sint (hitpoints s))"
    by (rule Alive_iff)
next
  assume "1 \<le>s A"
  then have A: "1 \<le> sint A" by (simp add: word_sle_eq)
  then obtain n where n: "nat (sint A) = Suc n" by (cases "nat (sint A)") simp_all
  then have sA: "sint A = int (Suc n)" using A by linarith
  show "fst (TakeHits (nat (sint A)) (NewArmoredShip r c A)) =
        replicate (nat (sint A) - 1) False @ [True]"
    unfolding n NewArmoredShip_def TakeHits_armored_last [OF sA] by simp
  fix k assume k: "k \<le> nat (sint A)"
  show "sint (hitpoints (snd (TakeHits k (NewArmoredShip r c A)))) = sint A - int k"
  proof (cases "k = Suc n")
    case True
    then show ?thesis
      unfolding NewArmoredShip_def by (simp only: TakeHits_armored_last [OF sA]) (simp add: sA)
  next
    case False
    with k n have "int k < sint A" by linarith
    from TakeHits_armored_alive [OF this, of r c] show ?thesis
      by (simp add: NewArmoredShip_def)
  qed
  then show "Alive (snd (TakeHits k (NewArmoredShip r c A))) = (k < nat (sint A))"
    using A by (simp add: Alive_iff) linarith
qed

theorem hits_to_destroy_witness:
  "(1 :: go_int) \<le>s 2 \<and>
   fst (TakeHits (nat (sint (2 :: go_int))) (NewArmoredShip 1 1 2)) = [False, True] \<and>
   Alive (snd (TakeHits 1 (NewArmoredShip 1 1 2))) \<and>
   \<not> Alive (snd (TakeHits 2 (NewArmoredShip 1 1 2)))"
  using hits_to_destroy [where r = 1 and c = 1 and s = "NewBasicShip 1 1" and A = 2]
  by (simp add: numeral_2_eq_2 NewArmoredShip_def word_sle_eq word_sless_alt)

text \<open>
  C7. On a ship of either kind whose hitpoints are zero or less, \<^verbatim>\<open>TakeHit\<close> returns
  true and leaves the ship as it was, and so does any number of further calls.
  \<^verbatim>\<open>TakeHit\<close> has no failing branch.
\<close>

theorem TakeHit_destroyed_noop:
  "hitpoints s \<le>s 0 \<Longrightarrow> TakeHit s = (True, s) \<and> TakeHits n s = (replicate n True, s)"
  by (simp add: TakeHit_dead TakeHits_dead)

theorem TakeHit_destroyed_noop_witness:
  "hitpoints (ArmoredShip 2 3 0) \<le>s 0 \<and>
   TakeHit (ArmoredShip 2 3 0) = (True, ArmoredShip 2 3 0) \<and>
   TakeHits 3 (ArmoredShip 2 3 0) = ([True, True, True], ArmoredShip 2 3 0)"
  using TakeHit_destroyed_noop [of "ArmoredShip 2 3 0" 3]
  by (simp add: numeral_3_eq_3 word_sle_eq)

text \<open>
  C8. For a board of size N and integers r and c, \<open>InBounds\<close> is true exactly when
  \<open>0 \<le> r < N\<close> and \<open>0 \<le> c < N\<close>, the machine integers read as signed integers.
\<close>

theorem InBounds_iff:
  "InBounds b r c =
     (0 \<le> sint r \<and> sint r < sint (Size b) \<and> 0 \<le> sint c \<and> sint c < sint (Size b))"
  by (simp add: InBounds_def word_sle_eq word_sless_alt)

text \<open>
  C9. After any sequence of \<^verbatim>\<open>TakeShot\<close> calls on a new game, accepted or rejected,
  every cell holds one of \<^verbatim>\<open>'.'\<close>, \<^verbatim>\<open>'o'\<close>, \<^verbatim>\<open>'H'\<close>, \<^verbatim>\<open>'X'\<close>; a cell holding
  \<^verbatim>\<open>'H'\<close> or \<^verbatim>\<open>'X'\<close> is the cell at the ship's position, every other cell holds
  \<^verbatim>\<open>'.'\<close> or \<^verbatim>\<open>'o'\<close>, and the ship's position is the one it was made with.
\<close>

theorem markers_invariant:
  assumes "NewGame sz ship = Inr g"
  shows "markers_ok (TakeShots g rcs) \<and> Position (Ship (TakeShots g rcs)) = Position ship"
proof -
  have "Ship g = ship" using NewGame_Inr [OF assms] by simp
  with TakeShots_inv [OF NewGame_inv [OF assms], of rcs] show ?thesis by simp
qed

theorem markers_invariant_witness:
  "NewGame 3 (NewArmoredShip 1 1 2) =
     Inr \<lparr>Board = \<lparr>Size = 3, Cells = replicate 3 (replicate 3 rune_dot)\<rparr>,
          Ship = NewArmoredShip 1 1 2, Over = False, Shots = 0\<rparr> \<and>
   markers_ok
     (TakeShots \<lparr>Board = \<lparr>Size = 3, Cells = replicate 3 (replicate 3 rune_dot)\<rparr>,
                 Ship = NewArmoredShip 1 1 2, Over = False, Shots = 0\<rparr>
        [(1, 1), (0, 0), (5, 5), (1, 1), (2, 2)]) \<and>
   Position (Ship
     (TakeShots \<lparr>Board = \<lparr>Size = 3, Cells = replicate 3 (replicate 3 rune_dot)\<rparr>,
                 Ship = NewArmoredShip 1 1 2, Over = False, Shots = 0\<rparr>
        [(1, 1), (0, 0), (5, 5), (1, 1), (2, 2)])) = (1, 1)"
proof -
  have new: "NewGame 3 (NewArmoredShip 1 1 2) =
     Inr \<lparr>Board = \<lparr>Size = 3, Cells = replicate 3 (replicate 3 rune_dot)\<rparr>,
          Ship = NewArmoredShip 1 1 2, Over = False, Shots = 0\<rparr>"
    by code_simp
  from markers_invariant [OF new, of "[(1, 1), (0, 0), (5, 5), (1, 1), (2, 2)]"] new
  show ?thesis by (simp add: NewArmoredShip_def)
qed

text \<open>
  C10. On a square board \<^verbatim>\<open>TakeShot\<close> never panics, at any pair of integers: each cell
  access is in range, because it comes after the bounds check. The board stays square,
  and the board of a new game is square, so no sequence of calls on a new game reaches
  an out-of-range access.
\<close>

theorem TakeShot_no_panic:
  "(wf_board (Board g) \<longrightarrow>
      fst (TakeShot g r c) \<noteq> Inl Panic \<and> wf_board (Board (snd (TakeShot g r c)))) \<and>
   (NewGame sz ship = Inr g0 \<longrightarrow> wf_board (Board (TakeShots g0 rcs)))"
proof (intro conjI impI)
  assume wf: "wf_board (Board g)"
  show "fst (TakeShot g r c) \<noteq> Inl Panic"
  proof (cases "Over g \<or> \<not> InBounds (Board g) r c")
    case True
    then show ?thesis
      by (auto simp: TakeShot_def GameAlreadyOver_def OutOfBounds_def)
  next
    case False
    then have "\<not> Over g" "InBounds (Board g) r c" by simp_all
    from TakeShot_accepted [OF this wf] show ?thesis by (simp add: Let_def)
  qed
  show "wf_board (Board (snd (TakeShot g r c)))"
    using wf by (rule TakeShot_wf)
next
  assume "NewGame sz ship = Inr g0"
  from TakeShots_inv [OF NewGame_inv [OF this], of rcs]
  show "wf_board (Board (TakeShots g0 rcs))" by simp
qed

theorem TakeShot_no_panic_witness:
  "wf_board \<lparr>Size = 2, Cells = [[rune_dot, rune_dot], [rune_dot, rune_o]]\<rparr> \<and>
   fst (TakeShot \<lparr>Board = \<lparr>Size = 2, Cells = [[rune_dot, rune_dot], [rune_dot, rune_o]]\<rparr>,
                  Ship = NewBasicShip 0 0, Over = False, Shots = 1\<rparr> (- 1) 7) \<noteq> Inl Panic \<and>
   NewGame 2 (NewBasicShip 0 0) =
     Inr \<lparr>Board = \<lparr>Size = 2, Cells = [[rune_dot, rune_dot], [rune_dot, rune_dot]]\<rparr>,
          Ship = NewBasicShip 0 0, Over = False, Shots = 0\<rparr> \<and>
   wf_board (Board (TakeShots
      \<lparr>Board = \<lparr>Size = 2, Cells = [[rune_dot, rune_dot], [rune_dot, rune_dot]]\<rparr>,
          Ship = NewBasicShip 0 0, Over = False, Shots = 0\<rparr> [(1, 1), (- 1, 7), (0, 0)]))"
proof -
  have wf: "wf_board \<lparr>Size = 2, Cells = [[rune_dot, rune_dot], [rune_dot, rune_o]]\<rparr>"
    by (simp add: wf_board_def)
  have new: "NewGame 2 (NewBasicShip 0 0) =
     Inr \<lparr>Board = \<lparr>Size = 2, Cells = [[rune_dot, rune_dot], [rune_dot, rune_dot]]\<rparr>,
          Ship = NewBasicShip 0 0, Over = False, Shots = 0\<rparr>"
    by code_simp
  from TakeShot_no_panic [of "\<lparr>Board = \<lparr>Size = 2, Cells = [[rune_dot, rune_dot], [rune_dot, rune_o]]\<rparr>,
                  Ship = NewBasicShip 0 0, Over = False, Shots = 1\<rparr>" "- 1" 7
        2 "NewBasicShip 0 0" _ "[(1, 1), (- 1, 7), (0, 0)]"] wf new
  show ?thesis by simp
qed

end
